theory Spec2Isabelle
  imports Main
begin

section \<open>Data model (auth-provider.tsx, usePermissions)\<close>

text \<open>
  The TypeScript union \<^verbatim>\<open>type Role = 'admin' | 'manager' | 'user'\<close>; the constructors
  carry a prefix because \<open>user\<close> is also a field of the session state.
\<close>

datatype Role = RoleAdmin | RoleManager | RoleUser

text \<open>\<^verbatim>\<open>interface User\<close>; the field \<^verbatim>\<open>id\<close> is named \<open>uid\<close> (\<open>id\<close> is the identity of HOL).\<close>

record User =
  uid :: string
  email :: string
  username :: string
  first_name :: string
  last_name :: string
  role :: Role
  is_verified :: bool
  is_active :: bool
  created_at :: string
  updated_at :: string

text \<open>\<^verbatim>\<open>interface AuthState\<close>: \<^verbatim>\<open>user: User | null\<close> is an option.\<close>

record AuthState =
  user :: "User option"
  isAuthenticated :: bool
  isLoading :: bool

text \<open>
  What a JavaScript \<^verbatim>\<open>throw\<close> or a rejected promise carries. An \<^verbatim>\<open>AxiosError\<close> has
  \<^verbatim>\<open>error.response?.status\<close>, absent for a transport failure; \<open>TypeError\<close> is the
  property access on a missing \<^verbatim>\<open>response.data\<close>; \<open>UseAuthOutsideProvider\<close> is the
  \<^verbatim>\<open>Error\<close> thrown by \<^verbatim>\<open>useAuth\<close>.
\<close>

datatype error = AxiosError "nat option" | TypeError | UseAuthOutsideProvider

text \<open>
  The body of a backend response, \<^verbatim>\<open>response.data\<close>, with the fields the front end
  reads: \<^verbatim>\<open>success\<close> (a missing field is falsy), \<^verbatim>\<open>user\<close> and \<^verbatim>\<open>access\<close> (each
  may be missing from the JSON). The response itself may have no body at all.
\<close>

record ResponseData =
  success :: bool
  data_user :: "User option"
  access :: "string option"

record AxiosResponse =
  status :: nat
  data :: "ResponseData option"

text \<open>How the promise of one call through the axios instance settles.\<close>

datatype Settled = Fulfilled AxiosResponse | Rejected error

section \<open>Permission table and hooks (usePermissions)\<close>

text \<open>
  \<^verbatim>\<open>ROLE_PERMISSIONS: Record<Role, string[]>\<close>, an object literal: an association list
  in the order of the source, read with \<open>map_of\<close>.
\<close>

definition ROLE_PERMISSIONS :: "(Role \<times> string list) list" where
  "ROLE_PERMISSIONS =
     [(RoleAdmin,
        [''manage_users'', ''manage_roles'', ''view_dashboard'', ''edit_profile'',
         ''view_profile'']),
      (RoleManager,
        [''view_dashboard'', ''manage_users'', ''edit_profile'', ''view_profile'']),
      (RoleUser,
        [''view_dashboard'', ''edit_profile'', ''view_profile''])]"

text \<open>
  \<^verbatim>\<open>useAuth\<close>: the context value is \<^verbatim>\<open>undefined\<close> outside an \<^verbatim>\<open>AuthProvider\<close>,
  and the hook throws there.
\<close>

definition useAuth :: "AuthState option \<Rightarrow> error + AuthState" where
  "useAuth context =
     (case context of None \<Rightarrow> Inl UseAuthOutsideProvider | Some c \<Rightarrow> Inr c)"

text \<open>\<^verbatim>\<open>useHasRole(...roles)\<close>: \<^verbatim>\<open>roles.includes(user.role)\<close> is list membership.\<close>

definition useHasRole :: "Role list \<Rightarrow> AuthState option \<Rightarrow> error + bool" where
  "useHasRole roles context =
     (case useAuth context of
        Inl e \<Rightarrow> Inl e
      | Inr c \<Rightarrow>
          if \<not> isAuthenticated c then Inr False
          else
            (case user c of
               None \<Rightarrow> Inr False
             | Some u \<Rightarrow> Inr (role u \<in> set roles)))"

text \<open>
  \<open>permissionsOf\<close> is the expression \<^verbatim>\<open>ROLE_PERMISSIONS[user.role as Role] || []\<close>:
  the lookup falls back to the empty list. In \<^verbatim>\<open>useHasPermission(...permissions)\<close>,
  \<^verbatim>\<open>some\<close> over \<^verbatim>\<open>includes\<close> is \<open>list_ex\<close> over membership.
\<close>

definition permissionsOf :: "Role \<Rightarrow> string list" where
  "permissionsOf r = (case map_of ROLE_PERMISSIONS r of None \<Rightarrow> [] | Some ps \<Rightarrow> ps)"

definition useHasPermission :: "string list \<Rightarrow> AuthState option \<Rightarrow> error + bool" where
  "useHasPermission permissions context =
     (case useAuth context of
        Inl e \<Rightarrow> Inl e
      | Inr c \<Rightarrow>
          if \<not> isAuthenticated c then Inr False
          else
            (case user c of
               None \<Rightarrow> Inr False
             | Some u \<Rightarrow>
                 (let userPermissions = permissionsOf (role u)
                  in Inr (list_ex (\<lambda>permission. permission \<in> set userPermissions)
                            permissions))))"

text \<open>\<^verbatim>\<open>useIsAdmin\<close> and \<^verbatim>\<open>useIsManager\<close>.\<close>

definition useIsAdmin :: "AuthState option \<Rightarrow> error + bool" where
  "useIsAdmin context = useHasRole [RoleAdmin] context"

definition useIsManager :: "AuthState option \<Rightarrow> error + bool" where
  "useIsManager context = useHasRole [RoleManager, RoleAdmin] context"

section \<open>Session state store (auth-provider.tsx)\<close>

text \<open>\<^verbatim>\<open>interface RegisterData\<close>; the two optional names are options.\<close>

record RegisterData =
  reg_email :: string
  reg_username :: string
  password :: string
  password_confirm :: string
  reg_first_name :: "string option"
  reg_last_name :: "string option"

text \<open>
  The provider holds the \<^verbatim>\<open>useState\<close> cell and the router; \<open>router\<close> is the list of
  paths given to \<^verbatim>\<open>router.push\<close>, oldest first.
\<close>

record AuthProvider =
  state :: AuthState
  router :: "string list"

definition setState :: "AuthState \<Rightarrow> AuthProvider \<Rightarrow> AuthProvider" where
  "setState st p = p\<lparr>state := st\<rparr>"

definition router_push :: "string \<Rightarrow> AuthProvider \<Rightarrow> AuthProvider" where
  "router_push path p = p\<lparr>router := router p @ [path]\<rparr>"

text \<open>The argument of \<^verbatim>\<open>useState\<close> and a router that has not been pushed to.\<close>

definition initial :: AuthProvider where
  "initial =
     \<lparr>state = \<lparr>user = None, isAuthenticated = False, isLoading = True\<rparr>, router = []\<rparr>"

text \<open>
  Each operation awaits one call through the axios instance. The operation is given how
  that call settles, and returns what its own promise settles to (\<open>Inl\<close> a rejection)
  with the provider afterwards.

  \<^verbatim>\<open>fetchCurrentUser\<close>: the whole body is inside \<^verbatim>\<open>try\<close>, so the rejection of the
  call and the \<open>TypeError\<close> of reading \<^verbatim>\<open>response.data.user\<close> off a missing body both
  reach the \<^verbatim>\<open>catch\<close>.
\<close>

definition fetchCurrentUser :: "Settled \<Rightarrow> AuthProvider \<Rightarrow> (error + unit) \<times> AuthProvider" where
  "fetchCurrentUser outcome p =
     (let caught = setState \<lparr>user = None, isAuthenticated = False, isLoading = False\<rparr> p
      in case outcome of
           Rejected e \<Rightarrow> (Inr (), caught)
         | Fulfilled response \<Rightarrow>
             (case data response of
                None \<Rightarrow> (Inr (), caught)
              | Some d \<Rightarrow>
                  (Inr (),
                   setState \<lparr>user = data_user d, isAuthenticated = True, isLoading = False\<rparr>
                     p)))"

text \<open>\<^verbatim>\<open>login\<close>: no \<^verbatim>\<open>try\<close>; a rejected call rejects \<^verbatim>\<open>login\<close>.\<close>

definition login :: "string \<Rightarrow> string \<Rightarrow> Settled \<Rightarrow> AuthProvider \<Rightarrow> (error + unit) \<times> AuthProvider" where
  "login email' password' outcome p =
     (case outcome of
        Rejected e \<Rightarrow> (Inl e, p)
      | Fulfilled response \<Rightarrow>
          (case data response of
             None \<Rightarrow> (Inl TypeError, p)
           | Some d \<Rightarrow>
               if success d then
                 (Inr (),
                  router_push ''/dashboard''
                    (setState
                       \<lparr>user = data_user d, isAuthenticated = True, isLoading = False\<rparr> p))
               else (Inr (), p)))"

text \<open>\<^verbatim>\<open>register\<close>: the same body, on \<^verbatim>\<open>/auth/register/\<close>.\<close>

definition register :: "RegisterData \<Rightarrow> Settled \<Rightarrow> AuthProvider \<Rightarrow> (error + unit) \<times> AuthProvider" where
  "register data' outcome p =
     (case outcome of
        Rejected e \<Rightarrow> (Inl e, p)
      | Fulfilled response \<Rightarrow>
          (case data response of
             None \<Rightarrow> (Inl TypeError, p)
           | Some d \<Rightarrow>
               if success d then
                 (Inr (),
                  router_push ''/dashboard''
                    (setState
                       \<lparr>user = data_user d, isAuthenticated = True, isLoading = False\<rparr> p))
               else (Inr (), p)))"

text \<open>
  \<^verbatim>\<open>logout\<close>: the call sits in a \<^verbatim>\<open>try\<close> with an empty \<^verbatim>\<open>catch\<close> and its response
  is not read; the reset and the push follow in both cases.
\<close>

definition logout :: "Settled \<Rightarrow> AuthProvider \<Rightarrow> (error + unit) \<times> AuthProvider" where
  "logout outcome p =
     (case outcome of
        Rejected e \<Rightarrow>
          (Inr (),
           router_push ''/login''
             (setState \<lparr>user = None, isAuthenticated = False, isLoading = False\<rparr> p))
      | Fulfilled response \<Rightarrow>
          (Inr (),
           router_push ''/login''
             (setState \<lparr>user = None, isAuthenticated = False, isLoading = False\<rparr> p)))"

text \<open>
  \<^verbatim>\<open>refreshToken\<close>: on a rejected refresh the \<^verbatim>\<open>catch\<close> starts \<^verbatim>\<open>logout()\<close> without
  awaiting it, so \<^verbatim>\<open>refreshToken\<close> itself always fulfils; the provider returned is the
  one after that logout has run on its own call's outcome.
\<close>

definition refreshToken :: "Settled \<Rightarrow> Settled \<Rightarrow> AuthProvider \<Rightarrow> (error + unit) \<times> AuthProvider" where
  "refreshToken outcome logoutOutcome p =
     (case outcome of
        Fulfilled response \<Rightarrow> (Inr (), p)
      | Rejected e \<Rightarrow> (Inr (), snd (logout logoutOutcome p)))"

text \<open>The five public operations, each with the outcomes of the calls it makes.\<close>

datatype Operation =
    FetchCurrentUser Settled
  | Login string string Settled
  | Register RegisterData Settled
  | Logout Settled
  | RefreshToken Settled Settled

fun perform :: "Operation \<Rightarrow> AuthProvider \<Rightarrow> (error + unit) \<times> AuthProvider" where
  "perform (FetchCurrentUser outcome) p = fetchCurrentUser outcome p"
| "perform (Login e pw outcome) p = login e pw outcome p"
| "perform (Register d outcome) p = register d outcome p"
| "perform (Logout outcome) p = logout outcome p"
| "perform (RefreshToken outcome logoutOutcome) p = refreshToken outcome logoutOutcome p"

text \<open>
  The assumption of the session invariant: a fulfilled response with a body carries a
  \<^verbatim>\<open>user\<close> object.
\<close>

definition carriesUser :: "Settled \<Rightarrow> bool" where
  "carriesUser outcome =
     (case outcome of
        Rejected e \<Rightarrow> True
      | Fulfilled response \<Rightarrow>
          (case data response of None \<Rightarrow> True | Some d \<Rightarrow> data_user d \<noteq> None))"

fun backendCarriesUser :: "Operation \<Rightarrow> bool" where
  "backendCarriesUser (FetchCurrentUser outcome) = carriesUser outcome"
| "backendCarriesUser (Login e pw outcome) = carriesUser outcome"
| "backendCarriesUser (Register d outcome) = carriesUser outcome"
| "backendCarriesUser (Logout outcome) = True"
| "backendCarriesUser (RefreshToken outcome logoutOutcome) = True"

text \<open>The session invariant: \<^verbatim>\<open>isAuthenticated\<close> implies a present \<^verbatim>\<open>user\<close>.\<close>

definition sessionInvariant :: "AuthState \<Rightarrow> bool" where
  "sessionInvariant st = (isAuthenticated st \<longrightarrow> user st \<noteq> None)"

section \<open>HTTP client wrapper (api.ts)\<close>

text \<open>
  A request configuration (\<^verbatim>\<open>InternalAxiosRequestConfig & { _retry?: boolean }\<close>) with
  the parts the interceptors read or write: \<open>Authorization\<close> is
  \<^verbatim>\<open>headers.Authorization\<close>, and \<open>retry\<close> is \<^verbatim>\<open>_retry\<close> (a missing flag is falsy).
  The configuration of a failed request is \<^verbatim>\<open>error.config\<close>, and a request issued
  again from it carries its fields along.
\<close>

record Request =
  http_method :: string
  url :: string
  Authorization :: "string option"
  retry :: bool

text \<open>
  What waits for the promise of a request. \<open>Caller\<close> is code outside the wrapper
  (the session store). \<open>AwaitRefresh originalRequest k\<close> is the error interceptor
  suspended at \<^verbatim>\<open>await api.post('/auth/token/refresh/')\<close> on behalf of
  \<open>originalRequest\<close>, whose own promise is awaited by \<open>k\<close>.
\<close>

datatype Cont = Caller | AwaitRefresh Request Cont

text \<open>
  The two module variables \<^verbatim>\<open>isRefreshing\<close> and \<^verbatim>\<open>refreshSubscribers\<close>, and the
  surroundings the interceptors act on. A subscriber is a closure over
  \<^verbatim>\<open>originalRequest\<close> and the \<^verbatim>\<open>resolve\<close> of the promise handed back, so it is the
  pair of that request and what awaits the promise. \<open>inflight\<close> are the requests handed
  to the transport and not yet answered, \<open>sent\<close> every request ever handed to it, oldest
  first, \<open>delivered\<close> what has been handed back to callers, and \<open>location\<close> is
  \<^verbatim>\<open>window.location.href\<close>, \<open>None\<close> where \<^verbatim>\<open>window\<close> is undefined.
\<close>

record ApiState =
  isRefreshing :: bool
  refreshSubscribers :: "(Request \<times> Cont) list"
  inflight :: "(Request \<times> Cont) list"
  sent :: "Request list"
  delivered :: "(Request \<times> Settled) list"
  location :: "string option"

text \<open>\<^verbatim>\<open>error.response?.status\<close>.\<close>

fun response_status :: "error \<Rightarrow> nat option" where
  "response_status (AxiosError st) = st"
| "response_status TypeError = None"
| "response_status UseAuthOutsideProvider = None"

text \<open>The template \<^verbatim>\<open>`Bearer ${token}`\<close>; a missing token prints as \<^verbatim>\<open>undefined\<close>.\<close>

definition Bearer :: "string option \<Rightarrow> string" where
  "Bearer token = ''Bearer '' @ (case token of None \<Rightarrow> ''undefined'' | Some t \<Rightarrow> t)"

text \<open>The assignment \<^verbatim>\<open>originalRequest.headers.Authorization = `Bearer ${token}`\<close>.\<close>

definition setAuthorization :: "string option \<Rightarrow> Request \<Rightarrow> Request" where
  "setAuthorization token config = config\<lparr>Authorization := Some (Bearer token)\<rparr>"

text \<open>The request interceptor returns the configuration as it is.\<close>

definition requestInterceptor :: "Request \<Rightarrow> Request" where
  "requestInterceptor config = config"

text \<open>
  \<^verbatim>\<open>api(config)\<close>: the request passes the request interceptor and goes to the
  transport; \<open>k\<close> awaits the promise returned.
\<close>

definition api :: "Request \<Rightarrow> Cont \<Rightarrow> ApiState \<Rightarrow> ApiState" where
  "api config k s =
     (let config' = requestInterceptor config
      in s\<lparr>inflight := inflight s @ [(config', k)], sent := sent s @ [config']\<rparr>)"

text \<open>The configuration that \<^verbatim>\<open>api.post('/auth/token/refresh/')\<close> builds.\<close>

definition refreshRequest :: Request where
  "refreshRequest =
     \<lparr>http_method = ''post'', url = ''/auth/token/refresh/'', Authorization = None,
      retry = False\<rparr>"

definition subscribeTokenRefresh :: "Request \<times> Cont \<Rightarrow> ApiState \<Rightarrow> ApiState" where
  "subscribeTokenRefresh cb s = s\<lparr>refreshSubscribers := refreshSubscribers s @ [cb]\<rparr>"

text \<open>
  One subscriber called with the token: it sets the header of its request and resolves
  its promise with \<^verbatim>\<open>api(originalRequest)\<close>. It does not set \<^verbatim>\<open>_retry\<close>.
\<close>

definition callSubscriber :: "string option \<Rightarrow> ApiState \<Rightarrow> Request \<times> Cont \<Rightarrow> ApiState" where
  "callSubscriber token s cb =
     api (setAuthorization token (fst cb)) (snd cb) s"

text \<open>\<^verbatim>\<open>onTokenRefreshed\<close>: \<^verbatim>\<open>forEach\<close> in queue order, then the queue is emptied.\<close>

definition onTokenRefreshed :: "string option \<Rightarrow> ApiState \<Rightarrow> ApiState" where
  "onTokenRefreshed token s =
     (foldl (callSubscriber token) s (refreshSubscribers s))\<lparr>refreshSubscribers := []\<rparr>"

text \<open>
  A promise settles and what awaits it runs. For \<open>Caller\<close> the result is handed back.
  For \<open>AwaitRefresh\<close> the interceptor resumes after its \<^verbatim>\<open>await\<close>: the \<^verbatim>\<open>try\<close>
  block on a fulfilled refresh, the \<^verbatim>\<open>catch\<close> block on a rejected one and on the
  \<open>TypeError\<close> of destructuring a missing body. The \<^verbatim>\<open>catch\<close> block does not touch
  \<^verbatim>\<open>refreshSubscribers\<close>. The request is the one whose promise settles.
\<close>

fun resume :: "Cont \<Rightarrow> Request \<Rightarrow> Settled \<Rightarrow> ApiState \<Rightarrow> ApiState" where
  "resume Caller config result s = s\<lparr>delivered := delivered s @ [(config, result)]\<rparr>"
| "resume (AwaitRefresh originalRequest k) config (Rejected refreshError) s =
     (let s1 = s\<lparr>isRefreshing := False\<rparr>;
          s2 = (case location s1 of
                  None \<Rightarrow> s1
                | Some href \<Rightarrow> s1\<lparr>location := Some ''/login''\<rparr>)
      in resume k originalRequest (Rejected refreshError) s2)"
| "resume (AwaitRefresh originalRequest k) config (Fulfilled response) s =
     (case data response of
        None \<Rightarrow>
          (let s1 = s\<lparr>isRefreshing := False\<rparr>;
               s2 = (case location s1 of
                       None \<Rightarrow> s1
                     | Some href \<Rightarrow> s1\<lparr>location := Some ''/login''\<rparr>)
           in resume k originalRequest (Rejected TypeError) s2)
      | Some d \<Rightarrow>
          (let s1 = s\<lparr>isRefreshing := False\<rparr>;
               s2 = onTokenRefreshed (access d) s1
           in api (setAuthorization (access d) originalRequest) k s2))"

text \<open>The response interceptor: fulfilled responses pass through.\<close>

definition responseFulfilled :: "Request \<times> Cont \<Rightarrow> AxiosResponse \<Rightarrow> ApiState \<Rightarrow> ApiState" where
  "responseFulfilled call response s = resume (snd call) (fst call) (Fulfilled response) s"

text \<open>
  The error interceptor up to its first suspension: a waiter is subscribed, or the
  request is marked, the flag is set and the refresh call goes out, or the error is
  passed through.
\<close>

definition responseRejected :: "Request \<times> Cont \<Rightarrow> error \<Rightarrow> ApiState \<Rightarrow> ApiState" where
  "responseRejected call err s =
     (let originalRequest = fst call; k = snd call
      in if response_status err = Some 401 \<and> \<not> retry originalRequest then
           if isRefreshing s then subscribeTokenRefresh (originalRequest, k) s
           else
             (let originalRequest' = originalRequest\<lparr>retry := True\<rparr>;
                  s1 = s\<lparr>isRefreshing := True\<rparr>
              in api refreshRequest (AwaitRefresh originalRequest' k) s1)
         else resume k originalRequest (Rejected err) s)"

text \<open>
  The event loop. \<open>Call config\<close>: code outside the wrapper calls the instance.
  \<open>Respond i result\<close>: the transport settles the request at position \<open>i\<close> of
  \<open>inflight\<close> and the matching response interceptor runs; there is no such event when
  nothing is in flight at \<open>i\<close>.
\<close>

datatype Event = Call Request | Respond nat Settled

fun step :: "Event \<Rightarrow> ApiState \<Rightarrow> ApiState option" where
  "step (Call config) s = Some (api config Caller s)"
| "step (Respond i result) s =
     (if i < length (inflight s) then
        (let call = inflight s ! i;
             s' = s\<lparr>inflight := take i (inflight s) @ drop (Suc i) (inflight s)\<rparr>
         in case result of
              Fulfilled response \<Rightarrow> Some (responseFulfilled call response s')
            | Rejected err \<Rightarrow> Some (responseRejected call err s'))
      else None)"

fun run :: "Event list \<Rightarrow> ApiState \<Rightarrow> ApiState option" where
  "run [] s = Some s"
| "run (ev # evs) s = (case step ev s of None \<Rightarrow> None | Some s' \<Rightarrow> run evs s')"

text \<open>The module as loaded: nothing refreshing, nobody subscribed, nothing sent.\<close>

definition loaded :: "string option \<Rightarrow> ApiState" where
  "loaded href =
     \<lparr>isRefreshing = False, refreshSubscribers = [], inflight = [], sent = [],
      delivered = [], location = href\<rparr>"

text \<open>The refresh calls of the wrapper itself are those the interceptor awaits.\<close>

fun awaitsRefresh :: "Request \<times> Cont \<Rightarrow> bool" where
  "awaitsRefresh (config, Caller) = False"
| "awaitsRefresh (config, AwaitRefresh originalRequest k) = True"

definition refreshesInFlight :: "ApiState \<Rightarrow> nat" where
  "refreshesInFlight s = length (filter awaitsRefresh (inflight s))"

section \<open>Notions used in the statements\<close>

text \<open>The order of the three roles: user below manager below admin.\<close>

fun rank :: "Role \<Rightarrow> nat" where
  "rank RoleUser = 0"
| "rank RoleManager = 1"
| "rank RoleAdmin = 2"

text \<open>The state that \<^verbatim>\<open>logout\<close> and the \<^verbatim>\<open>catch\<close> of \<^verbatim>\<open>fetchCurrentUser\<close> set.\<close>

definition unauthenticated :: AuthState where
  "unauthenticated = \<lparr>user = None, isAuthenticated = False, isLoading = False\<rparr>"

text \<open>A user and a successful response body, for the concrete instances.\<close>

definition alice :: User where
  "alice =
     \<lparr>uid = ''1'', email = ''a@b.com'', username = ''alice'', first_name = ''A'',
      last_name = ''B'', role = RoleManager, is_verified = True, is_active = True,
      created_at = ''2024-01-01'', updated_at = ''2024-01-02''\<rparr>"

definition ok_body :: AxiosResponse where
  "ok_body =
     \<lparr>status = 200, data = Some \<lparr>success = True, data_user = Some alice, access = None\<rparr>\<rparr>"

text \<open>The rejection of a request with status 401, and one with status 500.\<close>

definition unauthorized :: Settled where
  "unauthorized = Rejected (AxiosError (Some 401))"

definition serverError :: Settled where
  "serverError = Rejected (AxiosError (Some 500))"

text \<open>A subscriber after it has been called: its request with the header set.\<close>

definition reissued :: "string option \<Rightarrow> Request \<times> Cont \<Rightarrow> Request \<times> Cont" where
  "reissued token cb = (setAuthorization token (fst cb), snd cb)"

text \<open>
  The invariant of the refresh coordination. Every request in flight or subscribed is
  awaited by a caller, or is a refresh call whose original request is awaited by a
  caller; and of the refresh calls there is none while \<open>isRefreshing\<close> is false and at
  most one while it is true.
\<close>

fun flat :: "Request \<times> Cont \<Rightarrow> bool" where
  "flat (config, Caller) = True"
| "flat (config, AwaitRefresh originalRequest k) = (k = Caller)"

definition pending :: "ApiState \<Rightarrow> (Request \<times> Cont) list" where
  "pending s = inflight s @ refreshSubscribers s"

definition coordinated :: "ApiState \<Rightarrow> bool" where
  "coordinated s =
     (list_all flat (pending s)
      \<and> length (filter awaitsRefresh (pending s)) \<le> (if isRefreshing s then 1 else 0))"

text \<open>Two requests, a refresh response carrying a token, and the module after two calls.\<close>

definition reqA :: Request where
  "reqA = \<lparr>http_method = ''get'', url = ''/a'', Authorization = None, retry = False\<rparr>"

definition reqB :: Request where
  "reqB = \<lparr>http_method = ''get'', url = ''/b'', Authorization = None, retry = False\<rparr>"

definition refreshed :: "string \<Rightarrow> AxiosResponse" where
  "refreshed token =
     \<lparr>status = 200,
      data = Some \<lparr>success = False, data_user = None, access = Some token\<rparr>\<rparr>"

definition twoCalls :: ApiState where
  "twoCalls =
     \<lparr>isRefreshing = False, refreshSubscribers = [],
      inflight = [(reqA, Caller), (reqB, Caller)], sent = [reqA, reqB], delivered = [],
      location = Some ''/dashboard''\<rparr>"

section \<open>Permission table\<close>

lemma permissionsOf_mono:
  "rank r \<le> rank r' \<Longrightarrow> set (permissionsOf r) \<subseteq> set (permissionsOf r')"
  by (cases r; cases r') (simp_all add: permissionsOf_def ROLE_PERMISSIONS_def)

text \<open>
  C8. For every candidate role list and every candidate permission list, \<open>useHasRole\<close>
  and \<open>useHasPermission\<close> return false whenever the session is not authenticated or the
  user is absent.
\<close>

theorem hooks_false_when_unauthenticated:
  "\<not> isAuthenticated c \<or> user c = None \<Longrightarrow>
     useHasRole roles (Some c) = Inr False
     \<and> useHasPermission permissions (Some c) = Inr False"
  by (auto simp: useHasRole_def useHasPermission_def useAuth_def)

theorem hooks_false_when_unauthenticated_witness:
  "user \<lparr>user = None, isAuthenticated = True, isLoading = False\<rparr> = None
   \<and> useHasRole [RoleAdmin, RoleManager, RoleUser]
        (Some \<lparr>user = None, isAuthenticated = True, isLoading = False\<rparr>) = Inr False
   \<and> useHasPermission [''view_dashboard'']
        (Some \<lparr>user = None, isAuthenticated = True, isLoading = False\<rparr>) = Inr False"
  using hooks_false_when_unauthenticated
    [where c = "\<lparr>user = None, isAuthenticated = True, isLoading = False\<rparr>"
       and roles = "[RoleAdmin, RoleManager, RoleUser]"
       and permissions = "[''view_dashboard'']"]
  by simp

text \<open>
  C9. For each of the three roles, \<open>useHasPermission\<close> on an authenticated user of that
  role and the candidate \<open>view_dashboard\<close> returns true: the permission list of every
  role in the table contains \<open>view_dashboard\<close>.
\<close>

theorem every_role_views_dashboard:
  "useHasPermission [''view_dashboard'']
     (Some \<lparr>user = Some (u\<lparr>role := r\<rparr>), isAuthenticated = True, isLoading = l\<rparr>) = Inr True
   \<and> ''view_dashboard'' \<in> set (permissionsOf r)"
  by (cases r)
     (simp_all add: useHasPermission_def useAuth_def permissionsOf_def ROLE_PERMISSIONS_def)

theorem every_role_views_dashboard_witness:
  "useHasPermission [''view_dashboard'']
     (Some \<lparr>user = Some (alice\<lparr>role := RoleUser\<rparr>), isAuthenticated = True,
        isLoading = False\<rparr>) = Inr True
   \<and> ''view_dashboard'' \<in> set (permissionsOf RoleUser)"
  using every_role_views_dashboard [where u = alice and r = RoleUser and l = False]
  by simp

text \<open>
  C10. The table is a monotone hierarchy: the permissions of role user are among those
  of role manager, which are among those of role admin; so a permission check that
  succeeds for a role succeeds for every role above it.
\<close>

theorem role_hierarchy:
  "set (permissionsOf RoleUser) \<subseteq> set (permissionsOf RoleManager)
   \<and> set (permissionsOf RoleManager) \<subseteq> set (permissionsOf RoleAdmin)
   \<and> (rank r \<le> rank r' \<longrightarrow>
        useHasPermission permissions
          (Some \<lparr>user = Some (u\<lparr>role := r\<rparr>), isAuthenticated = a, isLoading = l\<rparr>)
          = Inr True \<longrightarrow>
        useHasPermission permissions
          (Some \<lparr>user = Some (u\<lparr>role := r'\<rparr>), isAuthenticated = a, isLoading = l\<rparr>)
          = Inr True)"
proof -
  have "useHasPermission permissions
          (Some \<lparr>user = Some (u\<lparr>role := r'\<rparr>), isAuthenticated = a, isLoading = l\<rparr>)
          = Inr True"
    if le: "rank r \<le> rank r'"
    and ok: "useHasPermission permissions
          (Some \<lparr>user = Some (u\<lparr>role := r\<rparr>), isAuthenticated = a, isLoading = l\<rparr>)
          = Inr True"
  proof -
    from ok have a: a and ex: "\<exists>q \<in> set permissions. q \<in> set (permissionsOf r)"
      by (auto simp: useHasPermission_def useAuth_def list_ex_iff split: if_splits)
    from ex permissionsOf_mono [OF le]
    have "\<exists>q \<in> set permissions. q \<in> set (permissionsOf r')"
      by blast
    with a show ?thesis
      by (simp add: useHasPermission_def useAuth_def list_ex_iff)
  qed
  moreover have "set (permissionsOf RoleUser) \<subseteq> set (permissionsOf RoleManager)"
    by (rule permissionsOf_mono) simp
  moreover have "set (permissionsOf RoleManager) \<subseteq> set (permissionsOf RoleAdmin)"
    by (rule permissionsOf_mono) simp
  ultimately show ?thesis by blast
qed

theorem role_hierarchy_witness:
  "rank RoleManager \<le> rank RoleAdmin
   \<and> useHasPermission [''manage_users'']
       (Some \<lparr>user = Some (alice\<lparr>role := RoleManager\<rparr>), isAuthenticated = True,
          isLoading = False\<rparr>) = Inr True
   \<and> useHasPermission [''manage_users'']
       (Some \<lparr>user = Some (alice\<lparr>role := RoleAdmin\<rparr>), isAuthenticated = True,
          isLoading = False\<rparr>) = Inr True
   \<and> set (permissionsOf RoleUser) \<subseteq> set (permissionsOf RoleManager)
   \<and> set (permissionsOf RoleManager) \<subseteq> set (permissionsOf RoleAdmin)"
  using role_hierarchy [where r = RoleManager and r' = RoleAdmin
      and permissions = "[''manage_users'']" and u = alice and a = True and l = False]
  by (simp add: useHasPermission_def useAuth_def permissionsOf_def ROLE_PERMISSIONS_def)

section \<open>Session state store\<close>

text \<open>
  C4. The session invariant (\<open>isAuthenticated\<close> implies a present \<open>user\<close>) holds in the
  initial state and is preserved by each of the five public operations
  (\<open>fetchCurrentUser\<close>, \<open>login\<close>, \<open>register\<close>, \<open>logout\<close>, \<open>refreshToken\<close>), provided the
  successful responses of the backend carry a user object.
\<close>

theorem session_invariant_preserved:
  "sessionInvariant (state initial)
   \<and> (sessionInvariant (state p) \<and> backendCarriesUser operation \<longrightarrow>
        sessionInvariant (state (snd (perform operation p))))"
proof -
  have "sessionInvariant (state initial)"
    by (simp add: sessionInvariant_def initial_def)
  moreover have "sessionInvariant (state (snd (perform operation p)))"
    if "sessionInvariant (state p)" and "backendCarriesUser operation"
    using that
    by (cases operation)
       (auto simp: sessionInvariant_def fetchCurrentUser_def login_def register_def
          logout_def refreshToken_def carriesUser_def setState_def router_push_def
          split: Settled.splits option.splits)
  ultimately show ?thesis by blast
qed

theorem session_invariant_preserved_witness:
  "sessionInvariant (state initial)
   \<and> backendCarriesUser (Login ''a@b.com'' ''x'' (Fulfilled ok_body))
   \<and> sessionInvariant
       (state (snd (perform (Login ''a@b.com'' ''x'' (Fulfilled ok_body)) initial)))
   \<and> isAuthenticated
       (state (snd (perform (Login ''a@b.com'' ''x'' (Fulfilled ok_body)) initial)))"
  using session_invariant_preserved
    [where p = initial and operation = "Login ''a@b.com'' ''x'' (Fulfilled ok_body)"]
  by (simp add: sessionInvariant_def initial_def carriesUser_def ok_body_def login_def
        setState_def router_push_def)

text \<open>
  C5. \<open>login\<close>: when the response carries a success signal, the state afterwards is
  authenticated with the user the backend returned and \<open>/dashboard\<close> is pushed to the
  router; when the call is rejected, \<open>login\<close> rejects with the same error and the
  provider is unchanged.
\<close>

theorem login_contract:
  "(data response = Some d \<and> success d \<longrightarrow>
      login e pw (Fulfilled response) p =
        (Inr (),
         p\<lparr>state := \<lparr>user = data_user d, isAuthenticated = True, isLoading = False\<rparr>,
           router := router p @ [''/dashboard'']\<rparr>))
   \<and> login e pw (Rejected err) p = (Inl err, p)"
  by (simp add: login_def setState_def router_push_def)

theorem login_contract_witness:
  "data ok_body = Some \<lparr>success = True, data_user = Some alice, access = None\<rparr>
   \<and> success \<lparr>success = True, data_user = Some alice, access = None\<rparr>
   \<and> login ''a@b.com'' ''x'' (Fulfilled ok_body) initial =
       (Inr (),
        \<lparr>state = \<lparr>user = Some alice, isAuthenticated = True, isLoading = False\<rparr>,
         router = [''/dashboard'']\<rparr>)
   \<and> login ''a@b.com'' ''x'' (Rejected (AxiosError (Some 400))) initial =
       (Inl (AxiosError (Some 400)), initial)"
  using login_contract
    [where response = ok_body
       and d = "\<lparr>success = True, data_user = Some alice, access = None\<rparr>"
       and e = "''a@b.com''" and pw = "''x''" and p = initial
       and err = "AxiosError (Some 400)"]
  by (simp add: ok_body_def initial_def)

text \<open>
  C6. \<open>logout\<close>: whether the backend call is fulfilled or rejected, \<open>logout\<close> fulfils
  (no error reaches the caller), the state afterwards is
  \<open>{user: absent, isAuthenticated: false, isLoading: false}\<close> and \<open>/login\<close> is pushed
  to the router.
\<close>

theorem logout_contract:
  "logout outcome p =
     (Inr (), p\<lparr>state := unauthenticated, router := router p @ [''/login'']\<rparr>)"
  by (cases outcome)
     (simp_all add: logout_def setState_def router_push_def unauthenticated_def)

theorem logout_contract_witness:
  "logout (Rejected (AxiosError None))
     \<lparr>state = \<lparr>user = Some alice, isAuthenticated = True, isLoading = False\<rparr>,
      router = [''/dashboard'']\<rparr> =
     (Inr (),
      \<lparr>state = \<lparr>user = None, isAuthenticated = False, isLoading = False\<rparr>,
       router = [''/dashboard'', ''/login'']\<rparr>)"
  using logout_contract
    [where outcome = "Rejected (AxiosError None)"
       and p = "\<lparr>state = \<lparr>user = Some alice, isAuthenticated = True, isLoading = False\<rparr>,
                router = [''/dashboard'']\<rparr>"]
  by (simp add: unauthenticated_def)

text \<open>
  C7. \<open>fetchCurrentUser\<close> never rejects: on a rejected identity fetch (and on a
  response without a body) the state afterwards is
  \<open>{user: absent, isAuthenticated: false, isLoading: false}\<close>, and on a fulfilled one it
  is \<open>{user: the returned user, isAuthenticated: true, isLoading: false}\<close>.
\<close>

theorem fetchCurrentUser_contract:
  "fst (fetchCurrentUser outcome p) = Inr ()
   \<and> fetchCurrentUser (Rejected err) p = (Inr (), p\<lparr>state := unauthenticated\<rparr>)
   \<and> (data response = None \<longrightarrow>
        fetchCurrentUser (Fulfilled response) p = (Inr (), p\<lparr>state := unauthenticated\<rparr>))
   \<and> (data response = Some d \<longrightarrow>
        fetchCurrentUser (Fulfilled response) p =
          (Inr (),
           p\<lparr>state := \<lparr>user = data_user d, isAuthenticated = True, isLoading = False\<rparr>\<rparr>))"
  by (simp add: fetchCurrentUser_def setState_def unauthenticated_def Let_def
        split: Settled.splits option.splits)

theorem fetchCurrentUser_contract_witness:
  "data ok_body = Some \<lparr>success = True, data_user = Some alice, access = None\<rparr>
   \<and> fetchCurrentUser (Fulfilled ok_body) initial =
       (Inr (),
        \<lparr>state = \<lparr>user = Some alice, isAuthenticated = True, isLoading = False\<rparr>,
         router = []\<rparr>)
   \<and> fetchCurrentUser (Rejected (AxiosError (Some 401))) initial =
       (Inr (), \<lparr>state = unauthenticated, router = []\<rparr>)"
  using fetchCurrentUser_contract
    [where outcome = "Fulfilled ok_body" and p = initial
       and err = "AxiosError (Some 401)" and response = ok_body
       and d = "\<lparr>success = True, data_user = Some alice, access = None\<rparr>"]
  by (simp add: ok_body_def initial_def)

section \<open>HTTP client wrapper\<close>

subsection \<open>The calls of the interceptors, as state updates\<close>

lemma api_eq:
  "api config k s = s\<lparr>inflight := inflight s @ [(config, k)], sent := sent s @ [config]\<rparr>"
  by (simp add: api_def requestInterceptor_def)

lemma foldl_callSubscriber:
  "foldl (callSubscriber token) s q =
     s\<lparr>inflight := inflight s @ map (reissued token) q,
       sent := sent s @ map (\<lambda>cb. setAuthorization token (fst cb)) q\<rparr>"
proof (induction q arbitrary: s)
  case Nil
  show ?case by simp
next
  case (Cons cb q)
  have one: "callSubscriber token s cb =
      s\<lparr>inflight := inflight s @ [reissued token cb],
        sent := sent s @ [setAuthorization token (fst cb)]\<rparr>"
    by (simp add: callSubscriber_def api_eq reissued_def)
  have "foldl (callSubscriber token) s (cb # q) =
      foldl (callSubscriber token) (callSubscriber token s cb) q"
    by simp
  also have "\<dots> = (callSubscriber token s cb)
      \<lparr>inflight := inflight (callSubscriber token s cb) @ map (reissued token) q,
       sent := sent (callSubscriber token s cb)
                @ map (\<lambda>cb. setAuthorization token (fst cb)) q\<rparr>"
    by (rule Cons.IH)
  also have "\<dots> = s\<lparr>inflight := inflight s @ map (reissued token) (cb # q),
       sent := sent s @ map (\<lambda>cb. setAuthorization token (fst cb)) (cb # q)\<rparr>"
    by (simp add: one)
  finally show ?case .
qed

lemma onTokenRefreshed_eq:
  "onTokenRefreshed token s =
     s\<lparr>inflight := inflight s @ map (reissued token) (refreshSubscribers s),
       sent := sent s @ map (\<lambda>cb. setAuthorization token (fst cb)) (refreshSubscribers s),
       refreshSubscribers := []\<rparr>"
  by (simp add: onTokenRefreshed_def foldl_callSubscriber)

lemma waiters_subscribed:
  "isRefreshing s \<Longrightarrow> inflight s = ws @ rest \<Longrightarrow> \<forall>cb \<in> set ws. \<not> retry (fst cb) \<Longrightarrow>
   run (replicate (length ws) (Respond 0 unauthorized)) s =
     Some (s\<lparr>inflight := rest, refreshSubscribers := refreshSubscribers s @ ws\<rparr>)"
proof (induction ws arbitrary: s)
  case Nil
  then show ?case by simp
next
  case (Cons cb ws)
  let ?s1 = "s\<lparr>inflight := ws @ rest, refreshSubscribers := refreshSubscribers s @ [cb]\<rparr>"
  have st: "step (Respond 0 unauthorized) s = Some ?s1"
    using Cons.prems
    by (simp add: unauthorized_def responseRejected_def subscribeTokenRefresh_def Let_def)
  have "run (replicate (length ws) (Respond 0 unauthorized)) ?s1 =
     Some (?s1\<lparr>inflight := rest, refreshSubscribers := refreshSubscribers ?s1 @ ws\<rparr>)"
    by (rule Cons.IH) (use Cons.prems in simp_all)
  with st show ?case by simp
qed

subsection \<open>At most one refresh call of the wrapper is in flight\<close>

lemma awaitsRefresh_reissued [simp]: "awaitsRefresh (reissued token cb) = awaitsRefresh cb"
  by (cases cb; cases "snd cb") (simp_all add: reissued_def)

lemma flat_reissued [simp]: "flat (reissued token cb) = flat cb"
  by (cases cb; cases "snd cb") (simp_all add: reissued_def)

lemma filter_awaitsRefresh_reissued:
  "filter awaitsRefresh (map (reissued token) q) = map (reissued token) (filter awaitsRefresh q)"
  by (induction q) simp_all

lemma list_all_flat_reissued:
  "list_all flat (map (reissued token) q) = list_all flat q"
  by (induction q) simp_all

lemma resume_Caller_fields [simp]:
  "isRefreshing (resume Caller c r s) = isRefreshing s"
  "pending (resume Caller c r s) = pending s"
  by (simp_all add: pending_def)

lemma rejected_coordinated:
  assumes fl: "list_all flat (call # pending s)"
    and cnt: "length (filter awaitsRefresh (call # pending s)) \<le> (if isRefreshing s then 1 else 0)"
  shows "coordinated (responseRejected call err s)"
proof (cases call)
  case (Pair c k)
  show ?thesis
  proof (cases k)
    case Caller
    with Pair fl cnt show ?thesis
      by (auto simp: responseRejected_def coordinated_def pending_def api_eq
            subscribeTokenRefresh_def Let_def)
  next
    case (AwaitRefresh orig k')
    with Pair fl have k': "k' = Caller" by simp
    from Pair AwaitRefresh cnt have r: "isRefreshing s"
      and z: "filter awaitsRefresh (pending s) = []"
      by (auto split: if_splits)
    show ?thesis
      using Pair AwaitRefresh k' r z fl
      by (auto simp: responseRejected_def coordinated_def pending_def
            subscribeTokenRefresh_def Let_def split: option.splits)
  qed
qed

lemma fulfilled_coordinated:
  assumes fl: "list_all flat (call # pending s)"
    and cnt: "length (filter awaitsRefresh (call # pending s)) \<le> (if isRefreshing s then 1 else 0)"
  shows "coordinated (responseFulfilled call response s)"
proof (cases call)
  case (Pair c k)
  show ?thesis
  proof (cases k)
    case Caller
    with Pair fl cnt show ?thesis
      by (auto simp: responseFulfilled_def coordinated_def pending_def)
  next
    case (AwaitRefresh orig k')
    with Pair fl have k': "k' = Caller" by simp
    from Pair AwaitRefresh cnt have r: "isRefreshing s"
      and z: "filter awaitsRefresh (pending s) = []"
      by (auto split: if_splits)
    show ?thesis
      using Pair AwaitRefresh k' r z fl
      by (auto simp: responseFulfilled_def coordinated_def pending_def api_eq
            onTokenRefreshed_eq Let_def filter_awaitsRefresh_reissued list_all_flat_reissued
            split: option.splits)
  qed
qed

lemma step_coordinated:
  assumes inv: "coordinated s" and st: "step ev s = Some s'"
  shows "coordinated s'"
proof (cases ev)
  case (Call c)
  with inv st show ?thesis
    by (auto simp: coordinated_def pending_def api_eq)
next
  case (Respond i result)
  with st have i: "i < length (inflight s)"
    by (simp split: if_splits)
  let ?call = "inflight s ! i"
  let ?s0 = "s\<lparr>inflight := take i (inflight s) @ drop (Suc i) (inflight s)\<rparr>"
  have split: "inflight s = take i (inflight s) @ ?call # drop (Suc i) (inflight s)"
    using i by (rule id_take_nth_drop)
  have "pending s = take i (inflight s) @ ?call # drop (Suc i) (inflight s) @ refreshSubscribers s"
    unfolding pending_def by (subst split) simp
  moreover have "pending ?s0 = take i (inflight s) @ drop (Suc i) (inflight s) @ refreshSubscribers s"
    by (simp add: pending_def)
  ultimately have fl: "list_all flat (?call # pending ?s0)"
    and cnt: "length (filter awaitsRefresh (?call # pending ?s0))
                \<le> (if isRefreshing ?s0 then 1 else 0)"
    using inv by (auto simp: coordinated_def split: if_splits)
  show ?thesis
  proof (cases result)
    case (Fulfilled response)
    with Respond st i have "s' = responseFulfilled ?call response ?s0"
      by (simp add: Let_def)
    with fl cnt show ?thesis by (simp only: fulfilled_coordinated)
  next
    case (Rejected err)
    with Respond st i have "s' = responseRejected ?call err ?s0"
      by (simp add: Let_def)
    with fl cnt show ?thesis by (simp only: rejected_coordinated)
  qed
qed

lemma run_coordinated:
  "coordinated s \<Longrightarrow> run evs s = Some s' \<Longrightarrow> coordinated s'"
proof (induction evs arbitrary: s)
  case Nil
  then show ?case by simp
next
  case (Cons ev evs)
  then show ?case
    by (auto split: option.splits dest: step_coordinated)
qed

lemma loaded_coordinated: "coordinated (loaded href)"
  by (simp add: coordinated_def pending_def loaded_def)

lemma coordinated_refreshesInFlight: "coordinated s \<Longrightarrow> refreshesInFlight s \<le> 1"
  by (auto simp: coordinated_def pending_def refreshesInFlight_def split: if_splits)

subsection \<open>Concurrent 401 responses\<close>

lemma waiters_split:
  assumes idle: "\<not> isRefreshing s"
    and fl: "inflight s = (c, k) # ws @ rest"
    and c: "\<not> retry c"
    and ws: "\<forall>cb \<in> set ws. \<not> retry (fst cb)"
  shows "run (replicate (Suc (length ws)) (Respond 0 unauthorized)) s =
     Some (s\<lparr>isRefreshing := True,
             refreshSubscribers := refreshSubscribers s @ ws,
             inflight := rest @ [(refreshRequest, AwaitRefresh (c\<lparr>retry := True\<rparr>) k)],
             sent := sent s @ [refreshRequest]\<rparr>)"
proof -
  let ?s1 = "s\<lparr>isRefreshing := True,
       inflight := ws @ rest @ [(refreshRequest, AwaitRefresh (c\<lparr>retry := True\<rparr>) k)],
       sent := sent s @ [refreshRequest]\<rparr>"
  have 1: "step (Respond 0 unauthorized) s = Some ?s1"
    using idle fl c
    by (simp add: unauthorized_def responseRejected_def api_eq Let_def)
  have 2: "run (replicate (length ws) (Respond 0 unauthorized)) ?s1 =
      Some (?s1\<lparr>inflight := rest @ [(refreshRequest, AwaitRefresh (c\<lparr>retry := True\<rparr>) k)],
       refreshSubscribers := refreshSubscribers ?s1 @ ws\<rparr>)"
    by (rule waiters_subscribed) (use ws in simp_all)
  show ?thesis
    using 1 2 by simp
qed

lemma refresh_fulfilled:
  assumes fl: "inflight s = rest @ [(config, AwaitRefresh originalRequest k)]"
    and d: "data response = Some d"
  shows "run [Respond (length rest) (Fulfilled response)] s =
     Some (s\<lparr>isRefreshing := False,
             refreshSubscribers := [],
             inflight := rest @ map (reissued (access d)) (refreshSubscribers s)
                          @ [(setAuthorization (access d) originalRequest, k)],
             sent := sent s
                      @ map (\<lambda>cb. setAuthorization (access d) (fst cb)) (refreshSubscribers s)
                      @ [setAuthorization (access d) originalRequest]\<rparr>)"
  using fl d
  by (simp add: responseFulfilled_def onTokenRefreshed_eq api_eq Let_def nth_append)

text \<open>
  C1. In every state the module reaches from its load, at most one refresh call of the
  wrapper is in flight. When no refresh is in progress and N requests that have not been
  retried are answered with 401 one after the other (the first is \<open>c\<close>, the others
  \<open>ws\<close> in the order of their answers; \<open>rest\<close> stays in flight), exactly one refresh
  call is issued, on the first answer, and it is the one refresh call in flight; the
  others are subscribed in that order. When that refresh is fulfilled with a body, the
  subscribers are called in queue order and then the first request follows: each of
  the N requests is sent again with \<open>Bearer\<close> and the new token as its
  \<open>Authorization\<close> header.
\<close>

theorem refresh_deduplicated:
  assumes reach: "run evs (loaded href) = Some s"
  shows "refreshesInFlight s \<le> 1
    \<and> (\<not> isRefreshing s \<and> inflight s = (c, k) # ws @ rest \<and> \<not> retry c
         \<and> (\<forall>cb \<in> set ws. \<not> retry (fst cb)) \<and> data response = Some d \<longrightarrow>
       run (replicate (Suc (length ws)) (Respond 0 unauthorized)) s =
         Some (s\<lparr>isRefreshing := True,
                 refreshSubscribers := refreshSubscribers s @ ws,
                 inflight := rest @ [(refreshRequest, AwaitRefresh (c\<lparr>retry := True\<rparr>) k)],
                 sent := sent s @ [refreshRequest]\<rparr>)
       \<and> refreshesInFlight
           (s\<lparr>isRefreshing := True,
              refreshSubscribers := refreshSubscribers s @ ws,
              inflight := rest @ [(refreshRequest, AwaitRefresh (c\<lparr>retry := True\<rparr>) k)],
              sent := sent s @ [refreshRequest]\<rparr>) = 1
       \<and> run [Respond (length rest) (Fulfilled response)]
           (s\<lparr>isRefreshing := True,
              refreshSubscribers := refreshSubscribers s @ ws,
              inflight := rest @ [(refreshRequest, AwaitRefresh (c\<lparr>retry := True\<rparr>) k)],
              sent := sent s @ [refreshRequest]\<rparr>) =
         Some (s\<lparr>isRefreshing := False,
                 refreshSubscribers := [],
                 inflight := rest @ map (reissued (access d)) (refreshSubscribers s @ ws)
                              @ [(setAuthorization (access d) (c\<lparr>retry := True\<rparr>), k)],
                 sent := sent s @ [refreshRequest]
                          @ map (\<lambda>cb. setAuthorization (access d) (fst cb))
                              (refreshSubscribers s @ ws)
                          @ [setAuthorization (access d) (c\<lparr>retry := True\<rparr>)]\<rparr>))"
proof -
  have inv: "coordinated s"
    using loaded_coordinated reach by (rule run_coordinated)
  then have one: "refreshesInFlight s \<le> 1"
    by (rule coordinated_refreshesInFlight)
  {
    assume idle: "\<not> isRefreshing s" and fl: "inflight s = (c, k) # ws @ rest"
      and c: "\<not> retry c" and ws: "\<forall>cb \<in> set ws. \<not> retry (fst cb)"
      and d: "data response = Some d"
    let ?s1 = "s\<lparr>isRefreshing := True,
                 refreshSubscribers := refreshSubscribers s @ ws,
                 inflight := rest @ [(refreshRequest, AwaitRefresh (c\<lparr>retry := True\<rparr>) k)],
                 sent := sent s @ [refreshRequest]\<rparr>"
    have a: "run (replicate (Suc (length ws)) (Respond 0 unauthorized)) s = Some ?s1"
      using idle fl c ws by (rule waiters_split)
    from inv idle fl have "filter awaitsRefresh rest = []"
      by (auto simp: coordinated_def pending_def split: if_splits)
    then have b: "refreshesInFlight ?s1 = 1"
      by (simp add: refreshesInFlight_def)
    have "run [Respond (length rest) (Fulfilled response)] ?s1 =
       Some (?s1\<lparr>isRefreshing := False,
             refreshSubscribers := [],
             inflight := rest @ map (reissued (access d)) (refreshSubscribers ?s1)
                          @ [(setAuthorization (access d) (c\<lparr>retry := True\<rparr>), k)],
             sent := sent ?s1
                      @ map (\<lambda>cb. setAuthorization (access d) (fst cb)) (refreshSubscribers ?s1)
                      @ [setAuthorization (access d) (c\<lparr>retry := True\<rparr>)]\<rparr>)"
      by (rule refresh_fulfilled) (use d in simp_all)
    then have "run [Respond (length rest) (Fulfilled response)] ?s1 =
         Some (s\<lparr>isRefreshing := False,
                 refreshSubscribers := [],
                 inflight := rest @ map (reissued (access d)) (refreshSubscribers s @ ws)
                              @ [(setAuthorization (access d) (c\<lparr>retry := True\<rparr>), k)],
                 sent := sent s @ [refreshRequest]
                          @ map (\<lambda>cb. setAuthorization (access d) (fst cb))
                              (refreshSubscribers s @ ws)
                          @ [setAuthorization (access d) (c\<lparr>retry := True\<rparr>)]\<rparr>)"
      by simp
    note a b this
  }
  with one show ?thesis by blast
qed

theorem refresh_deduplicated_witness:
  "run [Call reqA, Call reqB] (loaded (Some ''/dashboard'')) = Some twoCalls
   \<and> \<not> isRefreshing twoCalls
   \<and> inflight twoCalls = (reqA, Caller) # [(reqB, Caller)] @ []
   \<and> \<not> retry reqA \<and> \<not> retry reqB
   \<and> data (refreshed ''T1'') = Some \<lparr>success = False, data_user = None, access = Some ''T1''\<rparr>
   \<and> refreshesInFlight twoCalls \<le> 1
   \<and> run [Respond 0 unauthorized, Respond 0 unauthorized] twoCalls =
       Some \<lparr>isRefreshing = True, refreshSubscribers = [(reqB, Caller)],
             inflight = [(refreshRequest, AwaitRefresh (reqA\<lparr>retry := True\<rparr>) Caller)],
             sent = [reqA, reqB, refreshRequest], delivered = [],
             location = Some ''/dashboard''\<rparr>
   \<and> run [Respond 0 (Fulfilled (refreshed ''T1''))]
        \<lparr>isRefreshing = True, refreshSubscribers = [(reqB, Caller)],
         inflight = [(refreshRequest, AwaitRefresh (reqA\<lparr>retry := True\<rparr>) Caller)],
         sent = [reqA, reqB, refreshRequest], delivered = [],
         location = Some ''/dashboard''\<rparr> =
       Some \<lparr>isRefreshing = False, refreshSubscribers = [],
             inflight = [(reqB\<lparr>Authorization := Some ''Bearer T1''\<rparr>, Caller),
                         (reqA\<lparr>Authorization := Some ''Bearer T1'', retry := True\<rparr>, Caller)],
             sent = [reqA, reqB, refreshRequest,
                     reqB\<lparr>Authorization := Some ''Bearer T1''\<rparr>,
                     reqA\<lparr>Authorization := Some ''Bearer T1'', retry := True\<rparr>],
             delivered = [], location = Some ''/dashboard''\<rparr>"
proof -
  have reach: "run [Call reqA, Call reqB] (loaded (Some ''/dashboard'')) = Some twoCalls"
    by (simp add: loaded_def twoCalls_def api_eq)
  show ?thesis
    using reach
      refresh_deduplicated [OF reach, where c = reqA and k = Caller and ws = "[(reqB, Caller)]"
        and rest = "[]" and response = "refreshed ''T1''"
        and d = "\<lparr>success = False, data_user = None, access = Some ''T1''\<rparr>"]
    by (simp add: twoCalls_def reqA_def reqB_def refreshed_def reissued_def
          setAuthorization_def Bearer_def)
qed

subsection \<open>A failed refresh\<close>

lemma refresh_rejected:
  assumes i: "i < length (inflight s)"
    and call: "inflight s ! i = (refreshRequest, AwaitRefresh originalRequest Caller)"
    and err: "response_status err \<noteq> Some 401"
  shows "step (Respond i (Rejected err)) s =
     Some (s\<lparr>inflight := take i (inflight s) @ drop (Suc i) (inflight s),
             isRefreshing := False,
             location := (case location s of None \<Rightarrow> None | Some href \<Rightarrow> Some ''/login''),
             delivered := delivered s @ [(originalRequest, Rejected err)]\<rparr>)
    \<and> refreshSubscribers (the (step (Respond i (Rejected err)) s)) = refreshSubscribers s"
  using i call err
  by (simp add: responseRejected_def Let_def split: option.splits)

lemma refresh_unauthorized_is_subscribed:
  assumes i: "i < length (inflight s)"
    and call: "inflight s ! i = (refreshRequest, AwaitRefresh originalRequest k)"
    and r: "isRefreshing s"
  shows "step (Respond i unauthorized) s =
     Some (s\<lparr>inflight := take i (inflight s) @ drop (Suc i) (inflight s),
             refreshSubscribers :=
               refreshSubscribers s @ [(refreshRequest, AwaitRefresh originalRequest k)]\<rparr>)"
  using i call r
  by (simp add: unauthorized_def responseRejected_def subscribeTokenRefresh_def
        refreshRequest_def Let_def)

lemma filter_nil_nth: "filter P xs = [] \<Longrightarrow> i < length xs \<Longrightarrow> \<not> P (xs ! i)"
  by (auto simp: filter_empty_conv)

lemma filter_nil_remove:
  "filter P xs = [] \<Longrightarrow> filter P (take i xs @ drop (Suc i) xs) = []"
  by (auto simp: filter_empty_conv dest: in_set_takeD in_set_dropD)

lemma stuck_step:
  assumes r: "isRefreshing s" and none: "filter awaitsRefresh (inflight s) = []"
    and st: "step ev s = Some s'"
  shows "isRefreshing s' \<and> filter awaitsRefresh (inflight s') = []
    \<and> (\<exists>ws. refreshSubscribers s' = refreshSubscribers s @ ws)"
proof (cases ev)
  case (Call config)
  with r none st show ?thesis
    by (auto simp: api_eq)
next
  case (Respond i result)
  with st have i: "i < length (inflight s)"
    by (simp split: if_splits)
  obtain config k where call: "inflight s ! i = (config, k)"
    by (cases "inflight s ! i")
  from none i have "\<not> awaitsRefresh (inflight s ! i)"
    by (rule filter_nil_nth)
  with call have k: "k = Caller"
    by (cases k) simp_all
  from none have rest: "filter awaitsRefresh (take i (inflight s) @ drop (Suc i) (inflight s)) = []"
    by (rule filter_nil_remove)
  show ?thesis
    using Respond st i call k r rest
    by (cases result)
       (auto simp: responseFulfilled_def responseRejected_def subscribeTokenRefresh_def
          Let_def split: if_splits)
qed

lemma stuck_run:
  "isRefreshing s \<Longrightarrow> filter awaitsRefresh (inflight s) = [] \<Longrightarrow> run evs s = Some s' \<Longrightarrow>
     isRefreshing s' \<and> refreshesInFlight s' = 0
     \<and> (\<exists>ws. refreshSubscribers s' = refreshSubscribers s @ ws)"
proof (induction evs arbitrary: s)
  case Nil
  then show ?case by (simp add: refreshesInFlight_def)
next
  case (Cons ev evs)
  from Cons.prems(3) obtain s1 where s1: "step ev s = Some s1" and rest: "run evs s1 = Some s'"
    by (auto split: option.splits)
  from stuck_step [OF Cons.prems(1,2) s1]
  have a: "isRefreshing s1" and b: "filter awaitsRefresh (inflight s1) = []"
    and c: "\<exists>ws. refreshSubscribers s1 = refreshSubscribers s @ ws"
    by simp_all
  from Cons.IH [OF a b rest] c show ?case
    by auto
qed

lemma refresh_unauthorized_never_settles:
  "run [Call reqA, Respond 0 unauthorized, Respond 0 unauthorized]
     (loaded (Some ''/dashboard'')) =
     Some \<lparr>isRefreshing = True,
           refreshSubscribers = [(refreshRequest, AwaitRefresh (reqA\<lparr>retry := True\<rparr>) Caller)],
           inflight = [], sent = [reqA, refreshRequest], delivered = [],
           location = Some ''/dashboard''\<rparr>"
  by (simp add: loaded_def api_eq unauthorized_def responseRejected_def
        subscribeTokenRefresh_def reqA_def refreshRequest_def Let_def)

text \<open>
  C2. The property: when the refresh call fails, the wrapper sets \<open>isRefreshing\<close> back to
  false, empties the waiter queue, redirects to \<open>/login\<close> and rejects the promise of
  the original request, so that the queue is empty after every refresh. The code, on
  two requests answered with 401 and a refresh call rejected with 500: the flag is reset,
  the location is \<open>/login\<close> and the first request is rejected, but the waiter of the
  second request is still in \<open>refreshSubscribers\<close>. And on a refresh call rejected with
  401: the interceptor subscribes the refresh call itself, the \<^verbatim>\<open>catch\<close> block is not
  reached, \<open>isRefreshing\<close> stays true, nothing is rejected and the location is unchanged.
\<close>

theorem refresh_failure_keeps_waiters:
  "run [Call reqA, Call reqB, Respond 0 unauthorized, Respond 0 unauthorized,
        Respond 0 serverError] (loaded (Some ''/dashboard'')) =
     Some \<lparr>isRefreshing = False, refreshSubscribers = [(reqB, Caller)], inflight = [],
           sent = [reqA, reqB, refreshRequest],
           delivered = [(reqA\<lparr>retry := True\<rparr>, serverError)],
           location = Some ''/login''\<rparr>
   \<and> run [Call reqA, Call reqB, Respond 0 unauthorized, Respond 0 unauthorized,
          Respond 0 unauthorized] (loaded (Some ''/dashboard'')) =
     Some \<lparr>isRefreshing = True,
           refreshSubscribers =
             [(reqB, Caller),
              (refreshRequest, AwaitRefresh (reqA\<lparr>retry := True\<rparr>) Caller)],
           inflight = [], sent = [reqA, reqB, refreshRequest], delivered = [],
           location = Some ''/dashboard''\<rparr>"
  by (simp add: loaded_def api_eq unauthorized_def serverError_def responseRejected_def
        subscribeTokenRefresh_def reqA_def reqB_def refreshRequest_def Let_def)

subsection \<open>The retry mark\<close>

lemma retried_request_passes_through:
  assumes i: "i < length (inflight s)" and call: "inflight s ! i = (config, Caller)"
    and r: "retry config"
  shows "step (Respond i (Rejected err)) s =
     Some (s\<lparr>inflight := take i (inflight s) @ drop (Suc i) (inflight s),
             delivered := delivered s @ [(config, Rejected err)]\<rparr>)"
  using i call r by (simp add: responseRejected_def Let_def)

text \<open>
  C3. The property: a request that has been retried once after a refresh and is answered
  with 401 again is passed to its caller as a failure, and no request is retried more
  than once, be it the request that started the refresh or one sent again from the
  waiter queue. The code, on two requests answered with 401, a fulfilled refresh, and a
  second 401 for the request that waited: that request was sent again without the
  retry mark, so its second 401 starts a second refresh call instead of reaching the
  caller, and after that refresh it is sent a third time.
\<close>

theorem waiter_retried_twice:
  "run [Call reqA, Call reqB, Respond 0 unauthorized, Respond 0 unauthorized,
        Respond 0 (Fulfilled (refreshed ''T1'')), Respond 0 unauthorized,
        Respond 1 (Fulfilled (refreshed ''T2''))] (loaded (Some ''/dashboard'')) =
     Some \<lparr>isRefreshing = False, refreshSubscribers = [],
           inflight =
             [(reqA\<lparr>Authorization := Some ''Bearer T1'', retry := True\<rparr>, Caller),
              (reqB\<lparr>Authorization := Some ''Bearer T2'', retry := True\<rparr>, Caller)],
           sent =
             [reqA, reqB, refreshRequest,
              reqB\<lparr>Authorization := Some ''Bearer T1''\<rparr>,
              reqA\<lparr>Authorization := Some ''Bearer T1'', retry := True\<rparr>,
              refreshRequest,
              reqB\<lparr>Authorization := Some ''Bearer T2'', retry := True\<rparr>],
           delivered = [], location = Some ''/dashboard''\<rparr>"
  by (simp add: loaded_def api_eq unauthorized_def refreshed_def responseRejected_def
        responseFulfilled_def onTokenRefreshed_eq subscribeTokenRefresh_def reissued_def
        setAuthorization_def Bearer_def reqA_def reqB_def Let_def)

end
